theory Spec2Isabelle
  imports Main "HOL-Library.AList" "HOL-Library.Sublist"
begin

section \<open>JavaScript values\<close>

text \<open>
  The decoded frames of \<^verbatim>\<open>src/server/lib/Peer.js\<close> are plain JavaScript objects whose
  fields hold arbitrary values. The scalar values are modelled; the code only tests
  fields for truthiness (\<^verbatim>\<open>if (message.response)\<close>, \<^verbatim>\<open>if (response.ok)\<close>) and
  uses \<^verbatim>\<open>id\<close> as a key of a \<^verbatim>\<open>Map\<close>. On these scalars the key comparison of a
  \<^verbatim>\<open>Map\<close> is structural equality. A field that is absent reads as \<open>JUndefined\<close>.
\<close>

datatype jsval = JUndefined | JNull | JBool bool | JNum int | JStr string

fun truthy :: "jsval \<Rightarrow> bool" where
  "truthy JUndefined = False"
| "truthy JNull = False"
| "truthy (JBool b) = b"
| "truthy (JNum n) = (n \<noteq> 0)"
| "truthy (JStr s) = (s \<noteq> [])"

text \<open>
  The string conversion of a value (\<^verbatim>\<open>ToString\<close>). A number is modelled by an integer;
  the integers a decoded frame carries exactly print in decimal, which holds below
  \<open>10\<^sup>2\<^sup>1\<close> in magnitude.
\<close>

fun decimal :: "nat \<Rightarrow> string" where
  "decimal n =
     (if n < 10 then [''0123456789'' ! n]
      else decimal (n div 10) @ [''0123456789'' ! (n mod 10)])"

fun ToString :: "jsval \<Rightarrow> string" where
  "ToString JUndefined = ''undefined''"
| "ToString JNull = ''null''"
| "ToString (JBool b) = (if b then ''true'' else ''false'')"
| "ToString (JNum n) = (if n < 0 then ''-'' @ decimal (nat (- n)) else decimal (nat n))"
| "ToString (JStr s) = s"

text \<open>
  An \<^verbatim>\<open>Error\<close> object: its \<^verbatim>\<open>message\<close> and its \<^verbatim>\<open>code\<close> property.
  \<^verbatim>\<open>new Error(x)\<close> stores the string conversion of \<^verbatim>\<open>x\<close> as the message, and the empty
  string when \<^verbatim>\<open>x\<close> is undefined; it leaves \<^verbatim>\<open>code\<close> undefined.
\<close>

record js_error =
  error_message :: string
  code :: jsval

definition new_Error :: "jsval \<Rightarrow> js_error" where
  "new_Error msg =
     \<lparr> error_message = (if msg = JUndefined then [] else ToString msg), code = JUndefined \<rparr>"

text \<open>
  The three failures of the spec, as the values the code builds. \<open>RemoteError r c\<close> is
  what \<^verbatim>\<open>_handleResponse\<close> builds from the \<^verbatim>\<open>errorReason\<close> and the \<^verbatim>\<open>errorCode\<close> of a
  frame: \<^verbatim>\<open>new Error(r)\<close> with \<^verbatim>\<open>code\<close> set to \<^verbatim>\<open>c\<close>.
\<close>

definition RequestTimeout :: js_error where
  "RequestTimeout = new_Error (JStr ''request timeout'')"

definition PeerClosed :: js_error where
  "PeerClosed = new_Error (JStr ''peer closed'')"

definition RemoteError :: "jsval \<Rightarrow> jsval \<Rightarrow> js_error" where
  "RemoteError r c = (new_Error r) \<lparr> code := c \<rparr>"

section \<open>Frames and the Message contract\<close>

record message =
  msg_id :: jsval
  request :: jsval
  response :: jsval
  method_name :: jsval
  data :: jsval
  ok :: jsval
  errorReason :: jsval
  errorCode :: jsval

definition empty_message :: message where
  "empty_message = \<lparr> msg_id = JUndefined, request = JUndefined, response = JUndefined,
     method_name = JUndefined, data = JUndefined, ok = JUndefined,
     errorReason = JUndefined, errorCode = JUndefined \<rparr>"

text \<open>
  Modelled from the spec: \<^verbatim>\<open>Message.requestFactory\<close> of \<^verbatim>\<open>./Message\<close>, which is not
  among the sources. The spec (4.1) asks of \<open>buildRequest\<close> a fresh unique id, "monotonic
  counter or random token", around the method and the data; the counter is taken, and
  its current value is the argument \<open>n\<close>.
\<close>

definition requestFactory :: "jsval \<Rightarrow> jsval \<Rightarrow> int \<Rightarrow> message" where
  "requestFactory meth d n =
     empty_message \<lparr> msg_id := JNum n, request := JBool True, method_name := meth, data := d \<rparr>"

text \<open>
  Modelled from the spec: \<^verbatim>\<open>Message.successResponseFactory\<close> of \<^verbatim>\<open>./Message\<close>, which
  is not among the sources. The spec (4.1): \<open>buildSuccessResponse\<close> copies the id of the
  request and sets \<open>ok\<close> to true.
\<close>

definition successResponseFactory :: "message \<Rightarrow> jsval \<Rightarrow> message" where
  "successResponseFactory req d =
     empty_message \<lparr> msg_id := msg_id req, response := JBool True, ok := JBool True, data := d \<rparr>"

text \<open>
  Modelled from the spec: \<^verbatim>\<open>Message.errorResponseFactory\<close> of \<^verbatim>\<open>./Message\<close>, which is
  not among the sources. The spec (4.1): \<open>buildErrorResponse\<close> copies the id of the
  request, sets \<open>ok\<close> to false and carries the reason and the code.
\<close>

definition errorResponseFactory :: "message \<Rightarrow> jsval \<Rightarrow> jsval \<Rightarrow> message" where
  "errorResponseFactory req r c =
     empty_message \<lparr> msg_id := msg_id req, response := JBool True, ok := JBool False,
       errorReason := r, errorCode := c \<rparr>"

section \<open>The state of a Peer\<close>

text \<open>
  Every call of \<^verbatim>\<open>send\<close> allocates one promise, one timer and one handler object; the
  four members of the handler (\<^verbatim>\<open>resolve\<close>, \<^verbatim>\<open>reject\<close>, \<^verbatim>\<open>timer\<close>, \<^verbatim>\<open>close\<close>) are
  closures over the request, the promise's \<^verbatim>\<open>pResolve\<close> and \<^verbatim>\<open>pReject\<close> and the timer.
  A \<open>sent_request\<close> is that closure environment, and the store \<open>sent\<close> holds one per
  call, at the index the \<^verbatim>\<open>Map\<close> refers to.

  A promise is kept as the list of the calls of \<^verbatim>\<open>pResolve\<close> and \<^verbatim>\<open>pReject\<close> it has
  received, each with the handler member that made it. A JavaScript promise is settled
  by the first call and ignores every later one: \<open>promise_state\<close>.
\<close>

datatype member = By_resolve | By_reject | By_timer | By_close

datatype settlement = Fulfilled jsval | Rejected js_error

datatype timer_state = Armed | Cleared | Fired

record sent_request =
  sent_frame :: message
  calls :: "(member \<times> settlement) list"
  timer :: timer_state
  timeout_ms :: nat

datatype transport_call = Transport_send message | Transport_closing

datatype peer_event = Close_event | Request_event message

datatype log_level = Debug | Error_level

record peer =
  peer_id :: jsval
  closed :: bool
  requestHandlers :: "(jsval \<times> nat) list"
  sent :: "sent_request list"
  transport :: "transport_call list"
  emitted :: "peer_event list"
  logged :: "(log_level \<times> string) list"
  next_request_id :: int

text \<open>
  \<open>requestHandlers\<close> is the \<^verbatim>\<open>Map\<close> \<^verbatim>\<open>this._requestHandlers\<close> in insertion order
  (\<^verbatim>\<open>set\<close> is \<open>AList.update\<close>, \<^verbatim>\<open>delete\<close> is \<open>AList.delete\<close>, \<^verbatim>\<open>get\<close> is \<open>map_of\<close>);
  \<open>transport\<close> lists the calls made on \<^verbatim>\<open>this._transport\<close>, \<open>emitted\<close> the events
  the Peer emits to its observers, \<open>logged\<close> the lines given to the logger.
  \<open>next_request_id\<close> is the counter of the modelled \<open>requestFactory\<close>.
\<close>

definition promise_state :: "sent_request \<Rightarrow> settlement option" where
  "promise_state e = (case calls e of [] \<Rightarrow> None | c # _ \<Rightarrow> Some (snd c))"

definition REQUEST_TIMEOUT :: nat where
  "REQUEST_TIMEOUT = 10000"

definition logger :: "log_level \<Rightarrow> string \<Rightarrow> peer \<Rightarrow> peer" where
  "logger l txt s = s \<lparr> logged := logged s @ [(l, txt)] \<rparr>"

definition emit :: "peer_event \<Rightarrow> peer \<Rightarrow> peer" where
  "emit ev s = s \<lparr> emitted := emitted s @ [ev] \<rparr>"

definition transport_do :: "transport_call \<Rightarrow> peer \<Rightarrow> peer" where
  "transport_do c s = s \<lparr> transport := transport s @ [c] \<rparr>"

definition Map_has :: "jsval \<Rightarrow> peer \<Rightarrow> bool" where
  "Map_has k s = (map_of (requestHandlers s) k \<noteq> None)"

definition Map_delete :: "jsval \<Rightarrow> peer \<Rightarrow> peer" where
  "Map_delete k s = s \<lparr> requestHandlers := AList.delete k (requestHandlers s) \<rparr>"

definition Map_set :: "jsval \<Rightarrow> nat \<Rightarrow> peer \<Rightarrow> peer" where
  "Map_set k h s = s \<lparr> requestHandlers := AList.update k h (requestHandlers s) \<rparr>"

text \<open>\<^verbatim>\<open>clearTimeout\<close> stops a timer that has not fired and is a no-op on any other.\<close>

definition cleared :: "sent_request \<Rightarrow> sent_request" where
  "cleared e = e \<lparr> timer := (if timer e = Armed then Cleared else timer e) \<rparr>"

definition clearTimeout :: "nat \<Rightarrow> peer \<Rightarrow> peer" where
  "clearTimeout h s = s \<lparr> sent := (sent s)[h := cleared (sent s ! h)] \<rparr>"

text \<open>A call of \<^verbatim>\<open>pResolve\<close> or \<^verbatim>\<open>pReject\<close> is added to those the promise has received.\<close>

definition called :: "member \<times> settlement \<Rightarrow> sent_request \<Rightarrow> sent_request" where
  "called c e = e \<lparr> calls := calls e @ [c] \<rparr>"

definition settle :: "nat \<Rightarrow> member \<times> settlement \<Rightarrow> peer \<Rightarrow> peer" where
  "settle h c s = s \<lparr> sent := (sent s)[h := called c (sent s ! h)] \<rparr>"

definition pResolve :: "nat \<Rightarrow> member \<Rightarrow> jsval \<Rightarrow> peer \<Rightarrow> peer" where
  "pResolve h by d s = settle h (by, Fulfilled d) s"

definition pReject :: "nat \<Rightarrow> member \<Rightarrow> js_error \<Rightarrow> peer \<Rightarrow> peer" where
  "pReject h by e s = settle h (by, Rejected e) s"

section \<open>The Peer\<close>

definition new_Peer :: "jsval \<Rightarrow> int \<Rightarrow> peer" where
  "new_Peer peerId n =
     logger Debug ''constructor()''
       \<lparr> peer_id = peerId, closed = False, requestHandlers = [], sent = [],
         transport = [], emitted = [], logged = [], next_request_id = n \<rparr>"

subsection \<open>The handler of one sent request\<close>

definition request_id :: "nat \<Rightarrow> peer \<Rightarrow> jsval" where
  "request_id h s = msg_id (sent_frame (sent s ! h))"

definition handler_resolve :: "nat \<Rightarrow> jsval \<Rightarrow> peer \<Rightarrow> peer" where
  "handler_resolve h d s =
     (if \<not> Map_has (request_id h s) s then s
      else pResolve h By_resolve d (clearTimeout h (Map_delete (request_id h s) s)))"

definition handler_reject :: "nat \<Rightarrow> js_error \<Rightarrow> peer \<Rightarrow> peer" where
  "handler_reject h e s =
     (if \<not> Map_has (request_id h s) s then s
      else pReject h By_reject e (clearTimeout h (Map_delete (request_id h s) s)))"

definition handler_timer :: "nat \<Rightarrow> peer \<Rightarrow> peer" where
  "handler_timer h s =
     (if \<not> Map_has (request_id h s) s then s
      else pReject h By_timer (new_Error (JStr ''request timeout'')) (Map_delete (request_id h s) s))"

definition handler_close :: "nat \<Rightarrow> peer \<Rightarrow> peer" where
  "handler_close h s = pReject h By_close (new_Error (JStr ''peer closed'')) (clearTimeout h s)"

subsection \<open>send\<close>

text \<open>
  \<^verbatim>\<open>send\<close> returns the promise; the model returns its index in \<open>sent\<close> with the new
  state. The executor of the promise runs at once: it arms the timer and stores the
  handler under \<^verbatim>\<open>request.id\<close>. Nothing else is done.
\<close>

definition send :: "jsval \<Rightarrow> jsval \<Rightarrow> peer \<Rightarrow> nat \<times> peer" where
  "send meth d s =
     (let req = requestFactory meth d (next_request_id s);
          s1 = s \<lparr> next_request_id := next_request_id s + 1 \<rparr>;
          h = length (sent s1);
          s2 = s1 \<lparr> sent := sent s1 @
                 [\<lparr> sent_frame = req, calls = [], timer = Armed, timeout_ms = REQUEST_TIMEOUT \<rparr>] \<rparr>
      in (h, Map_set (msg_id req) h s2))"

subsection \<open>close\<close>

fun forEach_close :: "nat list \<Rightarrow> peer \<Rightarrow> peer" where
  "forEach_close [] s = s"
| "forEach_close (h # hs) s = forEach_close hs (handler_close h s)"

definition close :: "peer \<Rightarrow> peer" where
  "close s0 =
     (let s = logger Debug ''close()'' s0 in
      if closed s then s
      else
        let s1 = s \<lparr> closed := True \<rparr>;
            s2 = transport_do Transport_closing s1;
            s3 = forEach_close (map snd (requestHandlers s2)) s2
        in emit Close_event s3)"

subsection \<open>The listeners of the transport\<close>

definition on_transport_close :: "peer \<Rightarrow> peer" where
  "on_transport_close s =
     (if closed s then s
      else emit Close_event (s \<lparr> closed := True \<rparr>))"

definition handleResponse :: "message \<Rightarrow> peer \<Rightarrow> peer" where
  "handleResponse r s =
     (case map_of (requestHandlers s) (msg_id r) of
        None \<Rightarrow> logger Error_level ''received response does not match any sent request'' s
      | Some h \<Rightarrow>
          if truthy (ok r) then handler_resolve h (data r) s
          else handler_reject h ((new_Error (errorReason r)) \<lparr> code := errorCode r \<rparr>) s)"

text \<open>
  \<^verbatim>\<open>_handleRequest\<close> emits \<^verbatim>\<open>'request'\<close> with the frame and two closures over it;
  \<open>accept\<close> and \<open>reject\<close> are what the closures do when an observer calls them.
\<close>

definition handleRequest :: "message \<Rightarrow> peer \<Rightarrow> peer" where
  "handleRequest req s = emit (Request_event req) s"

definition accept :: "message \<Rightarrow> jsval \<Rightarrow> peer \<Rightarrow> peer" where
  "accept req d s = transport_do (Transport_send (successResponseFactory req d)) s"

definition reject :: "message \<Rightarrow> jsval \<Rightarrow> jsval \<Rightarrow> peer \<Rightarrow> peer" where
  "reject req r c s = transport_do (Transport_send (errorResponseFactory req r c)) s"

definition on_transport_message :: "message \<Rightarrow> peer \<Rightarrow> peer" where
  "on_transport_message m s =
     (if truthy (response m) then handleResponse m s
      else if truthy (request m) then handleRequest m s
      else s)"

text \<open>
  The timer of a sent request runs its callback when it fires, which only an armed timer
  does: one that was cleared, or has fired, never fires.
\<close>

definition fired :: "sent_request \<Rightarrow> sent_request" where
  "fired e = e \<lparr> timer := Fired \<rparr>"

definition on_timeout :: "nat \<Rightarrow> peer \<Rightarrow> peer" where
  "on_timeout h s =
     (if h < length (sent s) \<and> timer (sent s ! h) = Armed
      then handler_timer h (s \<lparr> sent := (sent s)[h := fired (sent s ! h)] \<rparr>)
      else s)"

section \<open>Runs of a Peer\<close>

text \<open>
  What can happen to a Peer, one event loop turn each: a call of its interface, an event
  of its transport, the firing of a timer, an observer calling the closures it was given.
\<close>

datatype event =
    Send jsval jsval
  | Close
  | Transport_close
  | Transport_message message
  | Timeout nat
  | Accept message jsval
  | Reject message jsval jsval

fun step :: "event \<Rightarrow> peer \<Rightarrow> peer" where
  "step (Send meth d) s = snd (send meth d s)"
| "step Close s = close s"
| "step Transport_close s = on_transport_close s"
| "step (Transport_message m) s = on_transport_message m s"
| "step (Timeout h) s = on_timeout h s"
| "step (Accept req d) s = accept req d s"
| "step (Reject req r c) s = reject req r c s"

fun run :: "event list \<Rightarrow> peer \<Rightarrow> peer" where
  "run [] s = s"
| "run (e # es) s = run es (step e s)"

section \<open>The invariant of a Peer\<close>

text \<open>
  What holds of every state a Peer reaches. \<open>present h s\<close>: the handler of the request
  sent at index \<open>h\<close> is in the table, under the id of its frame. A request is in one of
  four conditions (\<open>slot_ok\<close>): in the table with no call on its promise and its timer
  armed; in the table, rejected by \<^verbatim>\<open>close()\<close> and its timer cleared; out of the table
  with the one call that removed it; out of the table, rejected by \<^verbatim>\<open>close()\<close> and
  then removed by a response. The table refers to existing requests by their own ids
  (\<open>table_ok\<close>), and the ids are those the factory has given out, all different
  (\<open>ids_ok\<close>).
\<close>

definition present :: "nat \<Rightarrow> peer \<Rightarrow> bool" where
  "present h s = (map_of (requestHandlers s) (request_id h s) = Some h)"

definition gated :: "member \<times> settlement \<Rightarrow> bool" where
  "gated c = (fst c \<noteq> By_close)"

definition close_call :: "member \<times> settlement" where
  "close_call = (By_close, Rejected PeerClosed)"

definition slot_ok :: "peer \<Rightarrow> nat \<Rightarrow> bool" where
  "slot_ok s h =
     (if present h s
      then calls (sent s ! h) = [] \<and> timer (sent s ! h) = Armed \<or>
           calls (sent s ! h) = [close_call] \<and> timer (sent s ! h) = Cleared \<and> closed s
      else \<exists>m r. m \<noteq> By_close \<and>
             (calls (sent s ! h) = [(m, r)] \<and> timer (sent s ! h) \<noteq> Armed \<or>
              calls (sent s ! h) = [close_call, (m, r)] \<and> timer (sent s ! h) = Cleared \<and>
              closed s))"

definition table_ok :: "peer \<Rightarrow> bool" where
  "table_ok s =
     (distinct (map fst (requestHandlers s)) \<and>
      (\<forall>k h. map_of (requestHandlers s) k = Some h \<longrightarrow>
         h < length (sent s) \<and> request_id h s = k))"

definition ids_ok :: "peer \<Rightarrow> bool" where
  "ids_ok s =
     ((\<forall>h < length (sent s). \<exists>i < next_request_id s. request_id h s = JNum i) \<and>
      (\<forall>h < length (sent s). \<forall>g < length (sent s).
         request_id g s = request_id h s \<longrightarrow> g = h))"

definition peer_inv :: "peer \<Rightarrow> bool" where
  "peer_inv s =
     (table_ok s \<and> ids_ok s \<and>
      (\<forall>h < length (sent s). slot_ok s h \<and> timeout_ms (sent s ! h) = REQUEST_TIMEOUT))"

text \<open>
  From a state to a later one, the requests sent stay, with their frames, and the calls
  received by a promise are only added to.
\<close>

definition grows :: "peer \<Rightarrow> peer \<Rightarrow> bool" where
  "grows s s' =
     (length (sent s) \<le> length (sent s') \<and>
      (\<forall>h < length (sent s).
         sent_frame (sent s' ! h) = sent_frame (sent s ! h) \<and>
         prefix (calls (sent s ! h)) (calls (sent s' ! h))))"

section \<open>Example inputs\<close>

text \<open>
  A Peer \<open>alice\<close>, the call \<^verbatim>\<open>send('ping', null)\<close>, and the two responses a remote side
  can give to the request with id \<open>i\<close>: accepting with \<^verbatim>\<open>'pong'\<close>, or rejecting with
  \<^verbatim>\<open>('not allowed', 403)\<close>.
\<close>

definition ping :: event where
  "ping = Send (JStr ''ping'') JNull"

definition pong :: "int \<Rightarrow> message" where
  "pong i = successResponseFactory (requestFactory (JStr ''ping'') JNull i) (JStr ''pong'')"

definition refusal :: "int \<Rightarrow> message" where
  "refusal i =
     errorResponseFactory (requestFactory (JStr ''ping'') JNull i) (JStr ''not allowed'') (JNum 403)"

definition alice :: peer where
  "alice = new_Peer (JStr ''alice'') 0"

section \<open>What each operation changes\<close>

declare decimal.simps [simp del]

lemma logger_simps [simp]:
  "peer_id (logger l t s) = peer_id s" "closed (logger l t s) = closed s"
  "requestHandlers (logger l t s) = requestHandlers s" "sent (logger l t s) = sent s"
  "transport (logger l t s) = transport s" "emitted (logger l t s) = emitted s"
  "logged (logger l t s) = logged s @ [(l, t)]"
  "next_request_id (logger l t s) = next_request_id s"
  by (simp_all add: logger_def)

lemma emit_simps [simp]:
  "peer_id (emit ev s) = peer_id s" "closed (emit ev s) = closed s"
  "requestHandlers (emit ev s) = requestHandlers s" "sent (emit ev s) = sent s"
  "transport (emit ev s) = transport s" "emitted (emit ev s) = emitted s @ [ev]"
  "logged (emit ev s) = logged s" "next_request_id (emit ev s) = next_request_id s"
  by (simp_all add: emit_def)

lemma transport_do_simps [simp]:
  "peer_id (transport_do c s) = peer_id s" "closed (transport_do c s) = closed s"
  "requestHandlers (transport_do c s) = requestHandlers s" "sent (transport_do c s) = sent s"
  "transport (transport_do c s) = transport s @ [c]" "emitted (transport_do c s) = emitted s"
  "logged (transport_do c s) = logged s"
  "next_request_id (transport_do c s) = next_request_id s"
  by (simp_all add: transport_do_def)

lemma Map_delete_simps [simp]:
  "peer_id (Map_delete k s) = peer_id s" "closed (Map_delete k s) = closed s"
  "requestHandlers (Map_delete k s) = AList.delete k (requestHandlers s)"
  "sent (Map_delete k s) = sent s" "transport (Map_delete k s) = transport s"
  "emitted (Map_delete k s) = emitted s" "logged (Map_delete k s) = logged s"
  "next_request_id (Map_delete k s) = next_request_id s"
  by (simp_all add: Map_delete_def)

lemma Map_set_simps [simp]:
  "peer_id (Map_set k h s) = peer_id s" "closed (Map_set k h s) = closed s"
  "requestHandlers (Map_set k h s) = AList.update k h (requestHandlers s)"
  "sent (Map_set k h s) = sent s" "transport (Map_set k h s) = transport s"
  "emitted (Map_set k h s) = emitted s" "logged (Map_set k h s) = logged s"
  "next_request_id (Map_set k h s) = next_request_id s"
  by (simp_all add: Map_set_def)

lemma clearTimeout_simps [simp]:
  "peer_id (clearTimeout h s) = peer_id s" "closed (clearTimeout h s) = closed s"
  "requestHandlers (clearTimeout h s) = requestHandlers s"
  "sent (clearTimeout h s) = (sent s)[h := cleared (sent s ! h)]"
  "transport (clearTimeout h s) = transport s" "emitted (clearTimeout h s) = emitted s"
  "logged (clearTimeout h s) = logged s"
  "next_request_id (clearTimeout h s) = next_request_id s"
  by (simp_all add: clearTimeout_def)

lemma settle_simps [simp]:
  "peer_id (settle h c s) = peer_id s" "closed (settle h c s) = closed s"
  "requestHandlers (settle h c s) = requestHandlers s"
  "sent (settle h c s) = (sent s)[h := called c (sent s ! h)]"
  "transport (settle h c s) = transport s" "emitted (settle h c s) = emitted s"
  "logged (settle h c s) = logged s" "next_request_id (settle h c s) = next_request_id s"
  by (simp_all add: settle_def)

lemma cleared_simps [simp]:
  "sent_frame (cleared e) = sent_frame e" "calls (cleared e) = calls e"
  "timer (cleared e) = (if timer e = Armed then Cleared else timer e)"
  "timeout_ms (cleared e) = timeout_ms e"
  by (simp_all add: cleared_def)

lemma called_simps [simp]:
  "sent_frame (called c e) = sent_frame e" "calls (called c e) = calls e @ [c]"
  "timer (called c e) = timer e" "timeout_ms (called c e) = timeout_ms e"
  by (simp_all add: called_def)

lemma fired_simps [simp]:
  "sent_frame (fired e) = sent_frame e" "calls (fired e) = calls e"
  "timer (fired e) = Fired" "timeout_ms (fired e) = timeout_ms e"
  by (simp_all add: fired_def)

lemma handleResponse_emitted: "emitted (handleResponse m s) = emitted s"
  by (simp add: handleResponse_def handler_resolve_def handler_reject_def pResolve_def
      pReject_def split: option.split)

section \<open>The invariant holds in every run\<close>

lemma inv_new: "peer_inv (new_Peer p n)"
  by (simp add: peer_inv_def table_ok_def ids_ok_def new_Peer_def)

lemma inv_frame:
  assumes "peer_inv s"
    and "requestHandlers s' = requestHandlers s" "sent s' = sent s"
    and "closed s \<longrightarrow> closed s'" "next_request_id s \<le> next_request_id s'"
  shows "peer_inv s'"
proof -
  have rid: "request_id g s' = request_id g s" for g
    by (simp add: request_id_def assms)
  have pres: "present g s' = present g s" for g
    by (simp add: present_def rid assms)
  have "table_ok s'"
    using assms(1) by (simp add: peer_inv_def table_ok_def assms rid)
  moreover have "ids_ok s'"
    using assms(1,5) unfolding peer_inv_def ids_ok_def rid assms(3)
    by (meson order_less_le_trans)
  moreover have "slot_ok s' g" if "slot_ok s g" for g
    using that assms(4) by (auto simp: slot_ok_def pres assms(3))
  ultimately show ?thesis
    using assms(1) by (simp add: peer_inv_def assms(3))
qed

lemma inv_remove:
  assumes inv: "peer_inv s" and h: "h < length (sent s)" and pres: "present h s" and g: "fst c \<noteq> By_close"
    and tab: "requestHandlers s' = AList.delete (request_id h s) (requestHandlers s)"
    and snt: "sent s' = (sent s)[h := e']"
    and e': "sent_frame e' = sent_frame (sent s ! h)" "calls e' = calls (sent s ! h) @ [c]"
       "timer e' \<noteq> Armed" "timer (sent s ! h) = Cleared \<longrightarrow> timer e' = Cleared"
       "timeout_ms e' = timeout_ms (sent s ! h)"
    and rest: "closed s' = closed s" "next_request_id s' = next_request_id s"
  shows "peer_inv s'"
proof -
  have len: "length (sent s') = length (sent s)" by (simp add: snt)
  have rid: "request_id g s' = request_id g s" if "g < length (sent s)" for g
    using that h by (cases "g = h") (simp_all add: request_id_def snt e')
  have T: "table_ok s" and I: "ids_ok s"
    and S: "\<And>g. g < length (sent s) \<Longrightarrow> slot_ok s g \<and> timeout_ms (sent s ! g) = REQUEST_TIMEOUT"
    using inv by (simp_all add: peer_inv_def)
  have inj: "\<And>g. g < length (sent s) \<Longrightarrow> request_id g s = request_id h s \<Longrightarrow> g = h"
    using I h by (simp add: ids_ok_def)
  have T': "table_ok s'"
    using T rid by (auto simp: table_ok_def tab len AList.distinct_delete AList.delete_conv' split: if_splits)
  have I': "ids_ok s'"
    using I rid by (simp add: ids_ok_def len rest)
  have pres': "present g s' \<longleftrightarrow> (g \<noteq> h \<and> present g s)" if "g < length (sent s)" for g
    using that inj[of g] pres by (auto simp: present_def rid h tab AList.delete_conv')
  have S': "slot_ok s' g \<and> timeout_ms (sent s' ! g) = REQUEST_TIMEOUT" if "g < length (sent s)" for g
  proof (cases "g = h")
    case True
    then show ?thesis
      using S[OF h] pres pres'[OF h] h g e'
      by (cases c) (auto simp: slot_ok_def snt rest)
  next
    case False
    then show ?thesis
      using S[OF that] pres'[OF that] that
      by (auto simp: slot_ok_def snt rest)
  qed
  show ?thesis using T' I' S' by (simp add: peer_inv_def len)
qed

lemma request_id_simps [simp]:
  "request_id g (Map_delete k s) = request_id g s"
  "request_id g (Map_set k h s) = request_id g s"
  "request_id g (logger l t s) = request_id g s"
  "request_id g (emit ev s) = request_id g s"
  "request_id g (transport_do c s) = request_id g s"
  by (simp_all add: request_id_def)

lemma table_okD:
  assumes "peer_inv s" "map_of (requestHandlers s) k = Some h"
  shows "h < length (sent s)" "request_id h s = k" "present h s" "Map_has (request_id h s) s"
  using assms by (simp_all add: peer_inv_def table_ok_def present_def Map_has_def)

lemma list_update_again: "xs[h := f ((xs[h := a]) ! h)] = xs[h := f a]"
  by (cases "h < length xs") (simp_all add: list_update_beyond not_less)

lemma handler_resolve_sent:
  "Map_has (request_id h s) s \<Longrightarrow>
   sent (handler_resolve h d s) = (sent s)[h := called (By_resolve, Fulfilled d) (cleared (sent s ! h))]"
  by (simp add: handler_resolve_def pResolve_def list_update_again)

lemma handler_reject_sent:
  "Map_has (request_id h s) s \<Longrightarrow>
   sent (handler_reject h e s) = (sent s)[h := called (By_reject, Rejected e) (cleared (sent s ! h))]"
  by (simp add: handler_reject_def pReject_def list_update_again)

lemma inv_handler_resolve:
  assumes "peer_inv s" "map_of (requestHandlers s) k = Some h"
  shows "peer_inv (handler_resolve h d s)"
proof (rule inv_remove [OF assms(1) table_okD(1,3) [OF assms]])
  show "sent (handler_resolve h d s) = (sent s)[h := called (By_resolve, Fulfilled d) (cleared (sent s ! h))]"
    by (rule handler_resolve_sent [OF table_okD(4) [OF assms]])
qed (use table_okD(4) [OF assms] in \<open>simp_all add: handler_resolve_def pResolve_def\<close>)

lemma inv_handler_reject:
  assumes "peer_inv s" "map_of (requestHandlers s) k = Some h"
  shows "peer_inv (handler_reject h e s)"
proof (rule inv_remove [OF assms(1) table_okD(1,3) [OF assms]])
  show "sent (handler_reject h e s) = (sent s)[h := called (By_reject, Rejected e) (cleared (sent s ! h))]"
    by (rule handler_reject_sent [OF table_okD(4) [OF assms]])
qed (use table_okD(4) [OF assms] in \<open>simp_all add: handler_reject_def pReject_def\<close>)

lemma inv_handleResponse: "peer_inv s \<Longrightarrow> peer_inv (handleResponse r s)"
  by (auto simp: handleResponse_def inv_handler_resolve inv_handler_reject
      intro: inv_frame split: option.split)

lemma inv_on_transport_message: "peer_inv s \<Longrightarrow> peer_inv (on_transport_message m s)"
  by (auto simp: on_transport_message_def handleRequest_def inv_handleResponse intro: inv_frame)

lemma inv_on_transport_close: "peer_inv s \<Longrightarrow> peer_inv (on_transport_close s)"
  by (auto simp: on_transport_close_def intro: inv_frame)

lemma inv_accept: "peer_inv s \<Longrightarrow> peer_inv (accept req d s)"
  by (auto simp: accept_def intro: inv_frame)

lemma inv_reject: "peer_inv s \<Longrightarrow> peer_inv (reject req r c s)"
  by (auto simp: reject_def intro: inv_frame)

lemma armed_present:
  assumes "peer_inv s" "h < length (sent s)" "timer (sent s ! h) = Armed"
  shows "present h s" "calls (sent s ! h) = []"
  using assms by (auto simp: peer_inv_def slot_ok_def split: if_splits)

lemma inv_on_timeout:
  assumes "peer_inv s"
  shows "peer_inv (on_timeout h s)"
proof (cases "h < length (sent s) \<and> timer (sent s ! h) = Armed")
  case False
  then show ?thesis using assms by (auto simp: on_timeout_def)
next
  case True
  let ?s1 = "s \<lparr> sent := (sent s)[h := fired (sent s ! h)] \<rparr>"
  have p: "present h s" using armed_present(1) [OF assms] True by simp
  have rid: "request_id h ?s1 = request_id h s"
    using True by (simp add: request_id_def)
  have has: "Map_has (request_id h s) ?s1"
    using p by (simp add: Map_has_def present_def)
  have eq: "on_timeout h s =
      pReject h By_timer (new_Error (JStr ''request timeout'')) (Map_delete (request_id h s) ?s1)"
    using True has by (simp add: on_timeout_def handler_timer_def rid)
  show ?thesis
  proof (rule inv_remove [OF assms _ p])
    show "sent (on_timeout h s) =
        (sent s)[h := called (By_timer, Rejected (new_Error (JStr ''request timeout''))) (fired (sent s ! h))]"
      by (simp add: eq pReject_def list_update_again)
  qed (use True in \<open>simp_all add: eq pReject_def\<close>)
qed

lemma inv_send:
  assumes "peer_inv s"
  shows "peer_inv (snd (send meth d s))"
proof -
  let ?n = "next_request_id s"
  let ?h = "length (sent s)"
  let ?s' = "snd (send meth d s)"
  have snt: "sent ?s' = sent s @ [\<lparr> sent_frame = requestFactory meth d ?n, calls = [],
      timer = Armed, timeout_ms = REQUEST_TIMEOUT \<rparr>]"
    and tab: "requestHandlers ?s' = AList.update (JNum ?n) ?h (requestHandlers s)"
    and nxt: "next_request_id ?s' = ?n + 1" and cl: "closed ?s' = closed s"
    by (simp_all add: send_def Let_def requestFactory_def)
  have T: "table_ok s" and I: "ids_ok s"
    and S: "\<And>g. g < ?h \<Longrightarrow> slot_ok s g \<and> timeout_ms (sent s ! g) = REQUEST_TIMEOUT"
    using assms by (simp_all add: peer_inv_def)
  have old: "request_id g ?s' = request_id g s" if "g < ?h" for g
    using that by (simp add: request_id_def snt nth_append)
  have new: "request_id ?h ?s' = JNum ?n"
    by (simp add: request_id_def snt requestFactory_def)
  have fresh: "request_id g s \<noteq> JNum ?n" if "g < ?h" for g
    using I that by (fastforce simp: ids_ok_def)
  have T': "table_ok ?s'"
    unfolding table_ok_def tab
  proof (intro conjI allI impI)
    show "distinct (map fst (AList.update (JNum ?n) ?h (requestHandlers s)))"
      using T by (simp add: table_ok_def AList.distinct_update)
  next
    fix k g assume "map_of (AList.update (JNum ?n) ?h (requestHandlers s)) k = Some g"
    then have m: "((map_of (requestHandlers s))(JNum ?n \<mapsto> ?h)) k = Some g"
      by (simp only: AList.update_conv')
    have "g < length (sent ?s') \<and> request_id g ?s' = k"
    proof (cases "k = JNum ?n")
      case True
      with m have "g = ?h" by simp
      then show ?thesis using new True by (simp add: snt)
    next
      case False
      with m have "map_of (requestHandlers s) k = Some g" by simp
      with T have "g < ?h" "request_id g s = k" by (simp_all add: table_ok_def)
      then show ?thesis using old by (simp add: snt)
    qed
    then show "g < length (sent ?s')" "request_id g ?s' = k" by simp_all
  qed
  have I': "ids_ok ?s'"
    unfolding ids_ok_def
  proof (intro conjI allI impI)
    fix g assume "g < length (sent ?s')"
    then have "g < ?h \<or> g = ?h" by (auto simp: snt)
    then show "\<exists>i<next_request_id ?s'. request_id g ?s' = JNum i"
    proof
      assume g: "g < ?h"
      then obtain i where "i < ?n" "request_id g s = JNum i"
        using I by (auto simp: ids_ok_def)
      then show ?thesis using old [OF g] by (auto simp: nxt)
    next
      assume "g = ?h"
      then show ?thesis using new by (auto simp: nxt)
    qed
  next
    fix g1 g2 assume a: "g1 < length (sent ?s')" "g2 < length (sent ?s')"
      "request_id g2 ?s' = request_id g1 ?s'"
    then have "(g1 < ?h \<or> g1 = ?h) \<and> (g2 < ?h \<or> g2 = ?h)" by (auto simp: snt)
    then show "g2 = g1"
      using a(3) old new fresh I by (auto simp: ids_ok_def)
  qed
  have S': "slot_ok ?s' g \<and> timeout_ms (sent ?s' ! g) = REQUEST_TIMEOUT"
    if "g < length (sent ?s')" for g
  proof -
    from that have "g < ?h \<or> g = ?h" by (auto simp: snt)
    then show ?thesis
    proof
      assume g: "g < ?h"
      have "present g ?s' = present g s"
        using fresh [OF g] by (simp add: present_def old [OF g] tab AList.update_conv')
      then show ?thesis
        using S [OF g] g by (auto simp: slot_ok_def snt nth_append cl)
    next
      assume g: "g = ?h"
      have "present g ?s'"
        by (simp add: present_def g new tab AList.update_conv')
      then show ?thesis
        by (simp add: slot_ok_def g snt)
    qed
  qed
  show ?thesis using T' I' S' by (simp add: peer_inv_def)
qed

lemma handler_close_simps [simp]:
  "peer_id (handler_close h s) = peer_id s" "closed (handler_close h s) = closed s"
  "requestHandlers (handler_close h s) = requestHandlers s"
  "sent (handler_close h s) = (sent s)[h := called close_call (cleared (sent s ! h))]"
  "transport (handler_close h s) = transport s" "emitted (handler_close h s) = emitted s"
  "logged (handler_close h s) = logged s"
  "next_request_id (handler_close h s) = next_request_id s"
  by (simp_all add: handler_close_def pReject_def close_call_def PeerClosed_def list_update_again)

lemma forEach_close_simps [simp]:
  "peer_id (forEach_close hs s) = peer_id s" "closed (forEach_close hs s) = closed s"
  "requestHandlers (forEach_close hs s) = requestHandlers s"
  "transport (forEach_close hs s) = transport s" "emitted (forEach_close hs s) = emitted s"
  "logged (forEach_close hs s) = logged s"
  "next_request_id (forEach_close hs s) = next_request_id s"
  "length (sent (forEach_close hs s)) = length (sent s)"
  by (induction hs arbitrary: s) simp_all

lemma forEach_close_nth:
  "distinct hs \<Longrightarrow> g < length (sent s) \<Longrightarrow>
   sent (forEach_close hs s) ! g =
     (if g \<in> set hs then called close_call (cleared (sent s ! g)) else sent s ! g)"
proof (induction hs arbitrary: s)
  case Nil
  then show ?case by simp
next
  case (Cons a hs)
  then show ?case by (cases "g = a") simp_all
qed

lemma distinct_handlers:
  assumes "table_ok s"
  shows "distinct (map snd (requestHandlers s))"
proof -
  have d: "distinct (map fst (requestHandlers s))" using assms by (simp add: table_ok_def)
  have "inj_on snd (set (requestHandlers s))"
  proof (rule inj_onI)
    fix x y assume x: "x \<in> set (requestHandlers s)" and y: "y \<in> set (requestHandlers s)"
      and e: "snd x = snd y"
    have "map_of (requestHandlers s) (fst x) = Some (snd x)"
      "map_of (requestHandlers s) (fst y) = Some (snd y)"
      using d x y by simp_all
    then have "request_id (snd x) s = fst x" "request_id (snd y) s = fst y"
      using assms by (simp_all add: table_ok_def)
    then show "x = y" using e by (simp add: prod_eq_iff)
  qed
  moreover have "distinct (requestHandlers s)" using d by (simp add: distinct_map)
  ultimately show ?thesis by (simp add: distinct_map)
qed

lemma handler_listed:
  assumes "table_ok s" "g < length (sent s)"
  shows "g \<in> set (map snd (requestHandlers s)) \<longleftrightarrow> present g s"
proof
  assume "g \<in> set (map snd (requestHandlers s))"
  then obtain k where "(k, g) \<in> set (requestHandlers s)" by auto
  then have "map_of (requestHandlers s) k = Some g"
    using assms(1) by (simp add: table_ok_def)
  then show "present g s" using assms(1) by (auto simp: table_ok_def present_def)
next
  assume "present g s"
  then have "(request_id g s, g) \<in> set (requestHandlers s)"
    by (simp add: present_def map_of_SomeD)
  then show "g \<in> set (map snd (requestHandlers s))" by force
qed

lemma close_closed: "closed s \<Longrightarrow> close s = logger Debug ''close()'' s"
  by (simp add: close_def Let_def)

lemma close_open:
  assumes "\<not> closed s"
  shows "closed (close s)" "peer_id (close s) = peer_id s"
    "requestHandlers (close s) = requestHandlers s"
    "transport (close s) = transport s @ [Transport_closing]"
    "emitted (close s) = emitted s @ [Close_event]"
    "logged (close s) = logged s @ [(Debug, ''close()'')]"
    "next_request_id (close s) = next_request_id s"
    "length (sent (close s)) = length (sent s)"
  using assms by (simp_all add: close_def Let_def)

lemma close_open_nth:
  assumes "\<not> closed s" "table_ok s" "g < length (sent s)"
  shows "sent (close s) ! g =
     (if present g s then called close_call (cleared (sent s ! g)) else sent s ! g)"
proof -
  let ?s2 = "transport_do Transport_closing (logger Debug ''close()'' s \<lparr> closed := True \<rparr>)"
  have eq: "sent (close s) = sent (forEach_close (map snd (requestHandlers s)) ?s2)"
    using assms(1) by (simp add: close_def Let_def)
  have "sent (forEach_close (map snd (requestHandlers s)) ?s2) ! g =
      (if g \<in> set (map snd (requestHandlers s)) then called close_call (cleared (sent ?s2 ! g))
       else sent ?s2 ! g)"
    using assms by (intro forEach_close_nth distinct_handlers) simp_all
  then show ?thesis
    using handler_listed [OF assms(2,3)] by (simp add: eq)
qed

lemma inv_close:
  assumes "peer_inv s"
  shows "peer_inv (close s)"
proof (cases "closed s")
  case True
  then show ?thesis using assms by (auto simp: close_closed intro: inv_frame)
next
  case False
  note c = close_open [OF False]
  have T: "table_ok s" and I: "ids_ok s"
    and S: "\<And>g. g < length (sent s) \<Longrightarrow> slot_ok s g \<and> timeout_ms (sent s ! g) = REQUEST_TIMEOUT"
    using assms by (simp_all add: peer_inv_def)
  note nth = close_open_nth [OF False T]
  have rid: "request_id g (close s) = request_id g s" if "g < length (sent s)" for g
    using nth [OF that] by (simp add: request_id_def)
  have pres: "present g (close s) = present g s" if "g < length (sent s)" for g
    by (simp add: present_def rid [OF that] c)
  have "table_ok (close s)"
    using T rid by (auto simp: table_ok_def c)
  moreover have "ids_ok (close s)"
    using I rid by (simp add: ids_ok_def c)
  moreover have "slot_ok (close s) g \<and> timeout_ms (sent (close s) ! g) = REQUEST_TIMEOUT"
    if "g < length (sent s)" for g
    using S [OF that] False
    by (auto simp: slot_ok_def pres [OF that] nth [OF that] c(1) split: if_splits)
  ultimately show ?thesis by (simp add: peer_inv_def c)
qed

lemma inv_step: "peer_inv s \<Longrightarrow> peer_inv (step e s)"
  by (cases e)
    (simp_all add: inv_send inv_close inv_on_transport_close inv_on_transport_message
      inv_on_timeout inv_accept inv_reject)

lemma inv_run: "peer_inv s \<Longrightarrow> peer_inv (run es s)"
  by (induction es arbitrary: s) (simp_all add: inv_step)

lemma inv_reachable: "peer_inv (run es (new_Peer p n))"
  by (simp add: inv_run inv_new)

section \<open>Calls on a promise accumulate\<close>

lemma grows_refl: "grows s s"
  by (simp add: grows_def)

lemma grows_trans: "grows s t \<Longrightarrow> grows t u \<Longrightarrow> grows s u"
  unfolding grows_def by (metis (no_types, lifting) order_less_le_trans order_trans prefix_order.order_trans)

lemma grows_same: "sent s' = sent s \<Longrightarrow> grows s s'"
  by (simp add: grows_def)

lemma grows_update:
  assumes "sent s' = (sent s)[h := e']" "sent_frame e' = sent_frame (sent s ! h)"
    "prefix (calls (sent s ! h)) (calls e')"
  shows "grows s s'"
proof -
  have nth: "(sent s)[h := e'] ! g = (if g = h then e' else sent s ! g)"
    if "g < length (sent s)" for g
    using that by (cases "g = h") simp_all
  show ?thesis
    unfolding grows_def assms(1) using assms(2,3) by (simp add: nth)
qed

lemma grows_handler_resolve: "grows s (handler_resolve h d s)"
proof (cases "Map_has (request_id h s) s")
  case True
  show ?thesis by (rule grows_update [OF handler_resolve_sent [OF True]]) simp_all
next
  case False
  then show ?thesis by (simp add: handler_resolve_def grows_refl)
qed

lemma grows_handler_reject: "grows s (handler_reject h e s)"
proof (cases "Map_has (request_id h s) s")
  case True
  show ?thesis by (rule grows_update [OF handler_reject_sent [OF True]]) simp_all
next
  case False
  then show ?thesis by (simp add: handler_reject_def grows_refl)
qed

lemma grows_on_transport_message: "grows s (on_transport_message m s)"
  by (simp add: on_transport_message_def handleResponse_def handleRequest_def grows_same
      grows_handler_resolve grows_handler_reject split: option.split)

lemma grows_on_timeout: "grows s (on_timeout h s)"
proof (cases "h < length (sent s) \<and> timer (sent s ! h) = Armed")
  case False
  then show ?thesis by (auto simp: on_timeout_def grows_refl)
next
  case True
  let ?s1 = "s \<lparr> sent := (sent s)[h := fired (sent s ! h)] \<rparr>"
  have rid: "request_id h ?s1 = request_id h s" using True by (simp add: request_id_def)
  show ?thesis
  proof (cases "Map_has (request_id h s) ?s1")
    case has: True
    show ?thesis
    proof (rule grows_update)
      show "sent (on_timeout h s) =
        (sent s)[h := called (By_timer, Rejected (new_Error (JStr ''request timeout''))) (fired (sent s ! h))]"
        using True has by (simp add: on_timeout_def handler_timer_def rid pReject_def list_update_again)
    qed simp_all
  next
    case no: False
    show ?thesis
    proof (rule grows_update)
      show "sent (on_timeout h s) = (sent s)[h := fired (sent s ! h)]"
        using True no by (simp add: on_timeout_def handler_timer_def rid)
    qed simp_all
  qed
qed

lemma grows_send: "grows s (snd (send meth d s))"
  by (simp add: grows_def send_def Let_def nth_append)

lemma grows_forEach_close: "grows s (forEach_close hs s)"
proof (induction hs arbitrary: s)
  case Nil
  then show ?case by (simp add: grows_refl)
next
  case (Cons a hs)
  have "grows s (handler_close a s)"
    by (rule grows_update [where h = a and e' = "called close_call (cleared (sent s ! a))"]) simp_all
  then show ?case using grows_trans [OF _ Cons.IH] by simp
qed

lemma grows_close: "grows s (close s)"
proof -
  let ?s2 = "transport_do Transport_closing (logger Debug ''close()'' s \<lparr> closed := True \<rparr>)"
  have "grows s ?s2" by (simp add: grows_same)
  moreover have "grows ?s2 (forEach_close (map snd (requestHandlers ?s2)) ?s2)"
    by (rule grows_forEach_close)
  ultimately have "grows s (forEach_close (map snd (requestHandlers ?s2)) ?s2)"
    by (rule grows_trans)
  then have "grows s (emit Close_event (forEach_close (map snd (requestHandlers ?s2)) ?s2))"
    by (simp add: grows_def)
  then show ?thesis
    by (cases "closed s") (simp_all add: close_def Let_def grows_same)
qed

lemma grows_step: "grows s (step e s)"
  by (cases e)
    (simp_all add: grows_send grows_close grows_on_transport_message grows_on_timeout
      on_transport_close_def accept_def reject_def grows_same)

lemma grows_run: "grows s (run es s)"
proof (induction es arbitrary: s)
  case Nil
  then show ?case by (simp add: grows_refl)
next
  case (Cons e es)
  show ?case using grows_trans [OF grows_step Cons.IH] by simp
qed

section \<open>Promises and entries\<close>

lemma promise_state_None: "promise_state e = None \<longleftrightarrow> calls e = []"
  by (simp add: promise_state_def split: list.splits)

lemma promise_state_append:
  "calls e' = calls e @ [c] \<Longrightarrow>
   promise_state e' = (if calls e = [] then Some (snd c) else promise_state e)"
  by (simp add: promise_state_def split: list.splits)

lemma settled_stays:
  "prefix (calls e) (calls e') \<Longrightarrow> promise_state e \<noteq> None \<Longrightarrow> promise_state e' = promise_state e"
  by (auto simp: promise_state_def prefix_def split: list.splits)

lemma grows_request_id: "grows s s' \<Longrightarrow> h < length (sent s) \<Longrightarrow> request_id h s' = request_id h s"
  by (simp add: grows_def request_id_def)

lemma slot_okD: "peer_inv s \<Longrightarrow> h < length (sent s) \<Longrightarrow> slot_ok s h"
  by (simp add: peer_inv_def)

lemma absent_lookup:
  assumes "peer_inv s" "h < length (sent s)" "\<not> present h s"
  shows "map_of (requestHandlers s) (request_id h s) = None"
proof (rule ccontr)
  assume "map_of (requestHandlers s) (request_id h s) \<noteq> None"
  then obtain g where g: "map_of (requestHandlers s) (request_id h s) = Some g" by auto
  from table_okD(1,2) [OF assms(1) g] have "g < length (sent s)" "request_id g s = request_id h s" .
  then have "g = h" using assms(1,2) by (simp add: peer_inv_def ids_ok_def)
  then show False using g assms(3) by (simp add: present_def)
qed

lemma gated_once:
  assumes "peer_inv s" "h < length (sent s)"
  shows "length (filter gated (calls (sent s ! h))) \<le> 1"
  using slot_okD [OF assms]
  by (auto simp: slot_ok_def gated_def close_call_def split: if_splits)

lemma pending_iff_armed:
  assumes "peer_inv s" "h < length (sent s)"
  shows "promise_state (sent s ! h) = None \<longleftrightarrow> timer (sent s ! h) = Armed"
    and "promise_state (sent s ! h) = None \<longrightarrow> present h s"
    and "present h s \<and> \<not> closed s \<longrightarrow> promise_state (sent s ! h) = None"
    and "present h s \<and> promise_state (sent s ! h) \<noteq> None \<longrightarrow>
           closed s \<and> calls (sent s ! h) = [close_call] \<and> timer (sent s ! h) = Cleared"
  using slot_okD [OF assms]
  by (auto simp: slot_ok_def promise_state_def split: if_splits)

lemma removed_stays:
  assumes inv: "peer_inv s" and h: "h < length (sent s)" and np: "\<not> present h s"
  shows "\<not> present h (run es s) \<and> calls (sent (run es s) ! h) = calls (sent s ! h)"
proof -
  let ?t = "run es s"
  have g: "grows s ?t" by (rule grows_run)
  have ht: "h < length (sent ?t)" using g h by (simp add: grows_def)
  have pre: "prefix (calls (sent s ! h)) (calls (sent ?t ! h))" using g h by (simp add: grows_def)
  have st: "slot_ok ?t h" by (rule slot_okD [OF inv_run [OF inv] ht])
  have ss: "slot_ok s h" by (rule slot_okD [OF inv h])
  from ss np obtain m r where m: "m \<noteq> By_close"
    and c: "calls (sent s ! h) = [(m, r)] \<or> calls (sent s ! h) = [close_call, (m, r)]"
    by (auto simp: slot_ok_def)
  have notp: "\<not> present h ?t"
  proof
    assume "present h ?t"
    with st have "calls (sent ?t ! h) = [] \<or> calls (sent ?t ! h) = [close_call]"
      by (auto simp: slot_ok_def)
    with pre c m show False by (auto simp: close_call_def)
  qed
  with st obtain m' r' where "m' \<noteq> By_close"
    and c': "calls (sent ?t ! h) = [(m', r')] \<or> calls (sent ?t ! h) = [close_call, (m', r')]"
    by (auto simp: slot_ok_def)
  with pre c m have "calls (sent ?t ! h) = calls (sent s ! h)"
    by (auto simp: close_call_def)
  with notp show ?thesis by simp
qed

lemma on_timeout_armed:
  assumes "peer_inv s" "h < length (sent s)" "timer (sent s ! h) = Armed"
  shows "sent (on_timeout h s) =
      (sent s)[h := called (By_timer, Rejected RequestTimeout) (fired (sent s ! h))]"
    and "requestHandlers (on_timeout h s) = AList.delete (request_id h s) (requestHandlers s)"
proof -
  let ?s1 = "s \<lparr> sent := (sent s)[h := fired (sent s ! h)] \<rparr>"
  have p: "present h s" by (rule armed_present(1) [OF assms])
  have rid: "request_id h ?s1 = request_id h s" using assms(2) by (simp add: request_id_def)
  have has: "Map_has (request_id h s) ?s1" using p by (simp add: Map_has_def present_def)
  have eq: "on_timeout h s =
      pReject h By_timer (new_Error (JStr ''request timeout'')) (Map_delete (request_id h s) ?s1)"
    using assms(2,3) has by (simp add: on_timeout_def handler_timer_def rid)
  show "sent (on_timeout h s) =
      (sent s)[h := called (By_timer, Rejected RequestTimeout) (fired (sent s ! h))]"
    by (simp add: eq pReject_def list_update_again RequestTimeout_def)
  show "requestHandlers (on_timeout h s) = AList.delete (request_id h s) (requestHandlers s)"
    by (simp add: eq pReject_def)
qed

lemma handleResponse_matched:
  assumes "peer_inv s" "map_of (requestHandlers s) (msg_id r) = Some h"
  shows "sent (handleResponse r s) =
      (sent s)[h := called
         (if truthy (ok r) then (By_resolve, Fulfilled (data r))
          else (By_reject, Rejected (RemoteError (errorReason r) (errorCode r))))
         (cleared (sent s ! h))]"
    and "requestHandlers (handleResponse r s) = AList.delete (msg_id r) (requestHandlers s)"
proof -
  note d = table_okD [OF assms]
  have e: "(new_Error (errorReason r)) \<lparr> code := errorCode r \<rparr> = RemoteError (errorReason r) (errorCode r)"
    by (simp add: RemoteError_def)
  show "sent (handleResponse r s) =
      (sent s)[h := called
         (if truthy (ok r) then (By_resolve, Fulfilled (data r))
          else (By_reject, Rejected (RemoteError (errorReason r) (errorCode r))))
         (cleared (sent s ! h))]"
    using assms(2) d(4) by (simp add: handleResponse_def handler_resolve_sent handler_reject_sent e)
  show "requestHandlers (handleResponse r s) = AList.delete (msg_id r) (requestHandlers s)"
    using assms(2) d(2,4)
    by (simp add: handleResponse_def handler_resolve_def handler_reject_def pResolve_def pReject_def)
qed

lemmas peer_eval =
  new_Peer_def send_def close_def on_transport_close_def on_transport_message_def
  handleResponse_def handleRequest_def handler_resolve_def handler_reject_def
  handler_timer_def on_timeout_def pResolve_def pReject_def Map_has_def requestFactory_def
  successResponseFactory_def errorResponseFactory_def empty_message_def Let_def
  promise_state_def RequestTimeout_def PeerClosed_def RemoteError_def new_Error_def
  REQUEST_TIMEOUT_def accept_def reject_def request_id_def close_call_def present_def
  gated_def

lemmas example_defs = ping_def pong_def refusal_def alice_def

section \<open>The closed flag and the close event\<close>

lemma closed_emitted_simps [simp]:
  "closed (snd (send meth d s)) = closed s" "emitted (snd (send meth d s)) = emitted s"
  "closed (handleResponse r s) = closed s"
  "closed (on_timeout h s) = closed s" "emitted (on_timeout h s) = emitted s"
  by (simp_all add: send_def Let_def handleResponse_def handler_resolve_def handler_reject_def
      pResolve_def pReject_def on_timeout_def handler_timer_def split: option.split)

lemma step_closing:
  "closed (step e s) = (closed s \<or> e = Close \<or> e = Transport_close)"
  "count_list (emitted (step e s)) Close_event =
     (if \<not> closed s \<and> (e = Close \<or> e = Transport_close)
      then count_list (emitted s) Close_event + 1 else count_list (emitted s) Close_event)"
  by (cases e;
      simp add: close_def Let_def on_transport_close_def on_transport_message_def
        handleResponse_emitted handleRequest_def accept_def reject_def)+

lemma closed_run: "closed s \<Longrightarrow> closed (run es s)"
  by (induction es arbitrary: s) (simp_all add: step_closing(1))

lemma one_close_event:
  "count_list (emitted (run es s)) Close_event =
     (if closed (run es s) \<and> \<not> closed s then count_list (emitted s) Close_event + 1
      else count_list (emitted s) Close_event)"
proof (induction es arbitrary: s)
  case Nil
  then show ?case by simp
next
  case (Cons e es)
  note IH = Cons.IH [of "step e s"]
  show ?case
  proof (cases "closed s")
    case True
    then have "closed (step e s)" "count_list (emitted (step e s)) Close_event =
        count_list (emitted s) Close_event"
      by (simp_all add: step_closing)
    then show ?thesis using IH True by simp
  next
    case notyet: False
    show ?thesis
    proof (cases "e = Close \<or> e = Transport_close")
      case True
      then have c: "closed (step e s)" and n: "count_list (emitted (step e s)) Close_event =
          count_list (emitted s) Close_event + 1"
        using notyet by (simp_all add: step_closing)
      have "closed (run es (step e s))" by (rule closed_run [OF c])
      then show ?thesis using IH c n notyet by simp
    next
      case False
      then have "\<not> closed (step e s)" "count_list (emitted (step e s)) Close_event =
          count_list (emitted s) Close_event"
        using notyet by (simp_all add: step_closing)
      then show ?thesis using IH notyet by simp
    qed
  qed
qed

section \<open>send\<close>

text \<open>
  C1. The claim: every \<^verbatim>\<open>Peer.send(method, data)\<close> builds a RequestFrame with the
  Message contract, registers a PendingRequest under the frame's id, arms the timeout and
  writes the frame to the Transport. What \<^verbatim>\<open>send\<close> does, in any state: the frame is
  built by \<open>requestFactory\<close>, its handler is stored under the frame's id, its timer is
  armed with \<open>REQUEST_TIMEOUT\<close>, and the list of calls made on the transport is
  the one before the call. The frame is never given to \<^verbatim>\<open>this._transport.send\<close>.
\<close>

theorem send_registers_and_never_transmits:
  "(let (h, s') = send meth d s in
      sent_frame (sent s' ! h) = requestFactory meth d (next_request_id s) \<and>
      map_of (requestHandlers s') (msg_id (requestFactory meth d (next_request_id s))) = Some h \<and>
      timer (sent s' ! h) = Armed \<and>
      timeout_ms (sent s' ! h) = REQUEST_TIMEOUT \<and>
      transport s' = transport s)"
  by (simp add: send_def Let_def AList.update_conv')

text \<open>
  C3. The claim: a \<^verbatim>\<open>send\<close> made while the closed flag is true fails the returned
  future at once with "peer closed", and writes nothing to the Transport. \<^verbatim>\<open>send\<close> does
  not read the flag. After \<^verbatim>\<open>close()\<close> on \<open>alice\<close>, the future of
  \<^verbatim>\<open>send('ping', null)\<close> has received no call: it is pending, not rejected.
\<close>

theorem send_on_a_closed_peer_counterexample:
  "closed (close alice) \<and>
   promise_state (sent (snd (send (JStr ''ping'') JNull (close alice))) !
      fst (send (JStr ''ping'') JNull (close alice))) = None \<and>
   promise_state (sent (snd (send (JStr ''ping'') JNull (close alice))) !
      fst (send (JStr ''ping'') JNull (close alice))) \<noteq> Some (Rejected PeerClosed)"
  by (simp add: peer_eval example_defs)

text \<open>
  C3, as the code has it. A \<^verbatim>\<open>send\<close> on a closed Peer writes nothing to the Transport,
  emits nothing and leaves the flag true; it ends in the state the same call gives on the
  open Peer, but for the flag. The request is in the table under its id, its timer is
  armed, and its future is pending; the timer, when it fires, rejects the future with
  "request timeout".
\<close>

theorem send_on_a_closed_peer_registers_the_request:
  assumes "closed s"
  shows "(let (h, s') = send meth d s in
      transport s' = transport s \<and> closed s' \<and> emitted s' = emitted s \<and>
      s' = (snd (send meth d (s \<lparr> closed := False \<rparr>))) \<lparr> closed := True \<rparr> \<and>
      sent_frame (sent s' ! h) = requestFactory meth d (next_request_id s) \<and>
      map_of (requestHandlers s') (JNum (next_request_id s)) = Some h \<and>
      promise_state (sent s' ! h) = None \<and> timer (sent s' ! h) = Armed \<and>
      promise_state (sent (on_timeout h s') ! h) = Some (Rejected RequestTimeout))"
  using assms
  by (simp add: send_def Let_def Map_set_def requestFactory_def AList.update_conv'
      promise_state_def on_timeout_def handler_timer_def Map_has_def request_id_def
      pReject_def RequestTimeout_def)

theorem send_on_a_closed_peer_registers_the_request_witness:
  "closed (close alice) \<and>
   transport (snd (send (JStr ''ping'') JNull (close alice))) = [Transport_closing] \<and>
   map_of (requestHandlers (snd (send (JStr ''ping'') JNull (close alice)))) (JNum 0) = Some 0 \<and>
   promise_state (sent (snd (send (JStr ''ping'') JNull (close alice))) ! 0) = None \<and>
   timer (sent (snd (send (JStr ''ping'') JNull (close alice))) ! 0) = Armed \<and>
   promise_state
     (sent (on_timeout 0 (snd (send (JStr ''ping'') JNull (close alice)))) ! 0) =
     Some (Rejected RequestTimeout)"
proof -
  have c: "closed (close alice)" by (simp add: close_def Let_def alice_def new_Peer_def)
  have f: "fst (send (JStr ''ping'') JNull (close alice)) = 0"
    "next_request_id (close alice) = 0" "transport (close alice) = [Transport_closing]"
    by (simp_all add: send_def close_def Let_def alice_def new_Peer_def)
  note t = send_on_a_closed_peer_registers_the_request
    [OF c, of "JStr ''ping''" JNull, unfolded split_def Let_def f]
  from t c show ?thesis by blast
qed

section \<open>Settling a future\<close>


text \<open>
  What the removal does guard, in every run of a Peer and for every request \<open>h\<close> sent in
  it. The members \<^verbatim>\<open>resolve\<close> and \<^verbatim>\<open>reject\<close> and the callback of the timer make at
  most one call between them (first conjunct), and once the entry is out of the table no
  event adds a call or brings the entry back (last conjunct). A promise that has received
  no call has its entry in the table and its timer armed, and the timer, when it fires,
  rejects it with "request timeout" (second conjunct). A settled promise has no armed
  timer and is in the same state after any further events (third conjunct).
\<close>

lemma gated_calls_fire_once:
  assumes "s = run es (new_Peer p n)" and "h < length (sent s)"
  shows "length (filter gated (calls (sent s ! h))) \<le> 1 \<and>
     (promise_state (sent s ! h) = None \<longrightarrow>
        present h s \<and> timer (sent s ! h) = Armed \<and>
        promise_state (sent (on_timeout h s) ! h) = Some (Rejected RequestTimeout)) \<and>
     (promise_state (sent s ! h) \<noteq> None \<longrightarrow>
        timer (sent s ! h) \<noteq> Armed \<and>
        (\<forall>es'. promise_state (sent (run es' s) ! h) = promise_state (sent s ! h))) \<and>
     (\<not> present h s \<longrightarrow>
        (\<forall>es'. \<not> present h (run es' s) \<and>
           calls (sent (run es' s) ! h) = calls (sent s ! h)))"
proof -
  have inv: "peer_inv s" by (simp add: assms(1) inv_reachable)
  note h = assms(2)
  have 1: "length (filter gated (calls (sent s ! h))) \<le> 1"
    by (rule gated_once [OF inv h])
  have 2: "present h s \<and> timer (sent s ! h) = Armed \<and>
      promise_state (sent (on_timeout h s) ! h) = Some (Rejected RequestTimeout)"
    if pend: "promise_state (sent s ! h) = None"
  proof -
    have a: "timer (sent s ! h) = Armed" and p: "present h s"
      using pending_iff_armed(1,2) [OF inv h] pend by simp_all
    have "calls (sent s ! h) = []" by (rule armed_present(2) [OF inv h a])
    then have "promise_state (sent (on_timeout h s) ! h) = Some (Rejected RequestTimeout)"
      using h by (simp add: on_timeout_armed(1) [OF inv h a] promise_state_def)
    with a p show ?thesis by simp
  qed
  have 3: "timer (sent s ! h) \<noteq> Armed \<and>
      (\<forall>es'. promise_state (sent (run es' s) ! h) = promise_state (sent s ! h))"
    if settled: "promise_state (sent s ! h) \<noteq> None"
  proof -
    have "promise_state (sent (run es' s) ! h) = promise_state (sent s ! h)" for es'
    proof (rule settled_stays [OF _ settled])
      show "prefix (calls (sent s ! h)) (calls (sent (run es' s) ! h))"
        using grows_run [of s es'] h by (simp add: grows_def)
    qed
    then show ?thesis using pending_iff_armed(1) [OF inv h] settled by simp
  qed
  have 4: "\<forall>es'. \<not> present h (run es' s) \<and> calls (sent (run es' s) ! h) = calls (sent s ! h)"
    if "\<not> present h s"
    using removed_stays [OF inv h that] by blast
  show ?thesis using 1 2 3 4 by blast
qed

section \<open>Closing\<close>

text \<open>
  C5. \<^verbatim>\<open>close()\<close> on an open Peer, in any state a run reaches: the flag becomes true,
  \<^verbatim>\<open>close\<close> is called on the transport, a \<^verbatim>\<open>'close'\<close> event is emitted. The
  entries of the table are the requests whose future is pending; for each of them the
  promise receives the one call \<^verbatim>\<open>pReject(new Error('peer closed'))\<close> of the handler's
  \<^verbatim>\<open>close\<close>, the timer is cleared and the future is rejected with "peer closed". A
  request that is not in the table is left as it is.
\<close>

theorem close_rejects_every_pending_request:
  assumes "s = run es (new_Peer p n)" and "\<not> closed s"
  shows "closed (close s) \<and>
     transport (close s) = transport s @ [Transport_closing] \<and>
     emitted (close s) = emitted s @ [Close_event] \<and>
     (\<forall>(k, h) \<in> set (requestHandlers s). h < length (sent s) \<and> present h s) \<and>
     (\<forall>h < length (sent s).
        (present h s \<longleftrightarrow> promise_state (sent s ! h) = None) \<and>
        (present h s \<longrightarrow>
           calls (sent (close s) ! h) = [(By_close, Rejected PeerClosed)] \<and>
           timer (sent (close s) ! h) = Cleared \<and>
           promise_state (sent (close s) ! h) = Some (Rejected PeerClosed)) \<and>
        (\<not> present h s \<longrightarrow> sent (close s) ! h = sent s ! h))"
proof -
  have inv: "peer_inv s" by (simp add: assms(1) inv_reachable)
  then have T: "table_ok s" by (simp add: peer_inv_def)
  note c = close_open [OF assms(2)]
  have tab: "h < length (sent s) \<and> present h s" if "(k, h) \<in> set (requestHandlers s)" for k h
  proof -
    have "map_of (requestHandlers s) k = Some h"
      using T that by (simp add: table_ok_def)
    then show ?thesis using table_okD(1,3) [OF inv] by blast
  qed
  have slot: "(present h s \<longleftrightarrow> promise_state (sent s ! h) = None) \<and>
        (present h s \<longrightarrow>
           calls (sent (close s) ! h) = [(By_close, Rejected PeerClosed)] \<and>
           timer (sent (close s) ! h) = Cleared \<and>
           promise_state (sent (close s) ! h) = Some (Rejected PeerClosed)) \<and>
        (\<not> present h s \<longrightarrow> sent (close s) ! h = sent s ! h)"
    if h: "h < length (sent s)" for h
  proof -
    have iff: "present h s \<longleftrightarrow> promise_state (sent s ! h) = None"
      using pending_iff_armed(2,3) [OF inv h] assms(2) by blast
    show ?thesis
    proof (cases "present h s")
      case True
      then have "calls (sent s ! h) = []" "timer (sent s ! h) = Armed"
        using slot_okD [OF inv h] assms(2) by (simp_all add: slot_ok_def)
      then have "calls (sent (close s) ! h) = [(By_close, Rejected PeerClosed)]"
        "timer (sent (close s) ! h) = Cleared"
        using True by (simp_all add: close_open_nth [OF assms(2) T h] close_call_def)
      then show ?thesis using iff True by (simp add: promise_state_def)
    next
      case False
      then have "sent (close s) ! h = sent s ! h"
        by (simp add: close_open_nth [OF assms(2) T h])
      with False iff show ?thesis by blast
    qed
  qed
  show ?thesis using c(1,4,5) tab slot by blast
qed

theorem close_rejects_every_pending_request_witness:
  "\<not> closed (run [ping, ping, Timeout 0] alice) \<and>
   closed (close (run [ping, ping, Timeout 0] alice)) \<and>
   transport (close (run [ping, ping, Timeout 0] alice)) = [Transport_closing] \<and>
   emitted (close (run [ping, ping, Timeout 0] alice)) = [Close_event] \<and>
   present 1 (run [ping, ping, Timeout 0] alice) \<and>
   promise_state (sent (close (run [ping, ping, Timeout 0] alice)) ! 1) =
     Some (Rejected PeerClosed) \<and>
   timer (sent (close (run [ping, ping, Timeout 0] alice)) ! 1) = Cleared \<and>
   \<not> present 0 (run [ping, ping, Timeout 0] alice) \<and>
   sent (close (run [ping, ping, Timeout 0] alice)) ! 0 =
     sent (run [ping, ping, Timeout 0] alice) ! 0"
proof -
  let ?es = "[ping, ping, Timeout 0]"
  let ?s = "run ?es alice"
  have s: "?s = run ?es (new_Peer (JStr ''alice'') 0)" by (simp add: alice_def)
  have o: "\<not> closed ?s" and tr: "transport ?s = []" and em: "emitted ?s = []"
    and len: "0 < length (sent ?s)" "1 < length (sent ?s)"
    and p: "present 1 ?s" "\<not> present 0 ?s"
    by (simp_all add: peer_eval example_defs)
  note t = close_rejects_every_pending_request [OF s o]
  from t len p have "promise_state (sent (close ?s) ! 1) = Some (Rejected PeerClosed) \<and>
      timer (sent (close ?s) ! 1) = Cleared \<and> sent (close ?s) ! 0 = sent ?s ! 0"
    by blast
  moreover from t have "closed (close ?s) \<and> transport (close ?s) = transport ?s @ [Transport_closing]
      \<and> emitted (close ?s) = emitted ?s @ [Close_event]" by blast
  ultimately show ?thesis using o p tr em by simp
qed

text \<open>
  C4. The claim: when the transport signals closure on an open Peer, the Peer does what
  \<^verbatim>\<open>close()\<close> does but for closing the transport; in particular every pending request
  is rejected with "peer closed" and its timer cleared. The listener of the transport's
  \<^verbatim>\<open>'close'\<close> event sets the flag and emits \<^verbatim>\<open>'close'\<close>, and never touches a request
  or the table. After \<^verbatim>\<open>send('ping', null)\<close> and the transport's closure the request
  is in the table, its future pending and its timer armed; after \<^verbatim>\<open>close()\<close> instead
  the future is rejected with "peer closed" and the timer cleared.
\<close>

theorem transport_closure_leaves_requests_pending:
  "sent (on_transport_close s) = sent s \<and>
   requestHandlers (on_transport_close s) = requestHandlers s \<and>
   closed (run [ping, Transport_close] alice) \<and>
   emitted (run [ping, Transport_close] alice) = [Close_event] \<and>
   map_of (requestHandlers (run [ping, Transport_close] alice)) (JNum 0) = Some 0 \<and>
   promise_state (sent (run [ping, Transport_close] alice) ! 0) = None \<and>
   timer (sent (run [ping, Transport_close] alice) ! 0) = Armed \<and>
   promise_state (sent (run [ping, Close] alice) ! 0) = Some (Rejected PeerClosed) \<and>
   timer (sent (run [ping, Close] alice) ! 0) = Cleared"
  by (simp add: peer_eval example_defs)

text \<open>
  C8. The claim: of two closures, by \<^verbatim>\<open>close()\<close> or by the transport, in either order,
  exactly one emits \<^verbatim>\<open>'close'\<close>, the second does nothing, and no entry remains in the
  table afterwards. A closure that follows another changes nothing (\<^verbatim>\<open>close()\<close> still
  gives the logger its debug line), and in every run the number of \<^verbatim>\<open>'close'\<close> events
  emitted is one if the Peer is closed and none if it is not. Neither \<^verbatim>\<open>close()\<close> nor
  the transport's listener removes an entry from the table: after \<^verbatim>\<open>send('ping', null)\<close> and two
  closures, in each of the three orders, one \<^verbatim>\<open>'close'\<close> was emitted and the entry of
  the request is still in the table; when the transport's closure came first, its
  future is still pending and its timer armed.
\<close>

theorem closing_keeps_the_table:
  "requestHandlers (close s) = requestHandlers s \<and>
   requestHandlers (on_transport_close s) = requestHandlers s \<and>
   close (close s) = logger Debug ''close()'' (close s) \<and>
   close (on_transport_close s) = logger Debug ''close()'' (on_transport_close s) \<and>
   on_transport_close (close s) = close s \<and>
   on_transport_close (on_transport_close s) = on_transport_close s \<and>
   count_list (emitted (run es (new_Peer p n))) Close_event =
     (if closed (run es (new_Peer p n)) then 1 else 0) \<and>
   emitted (run [ping, Close, Close] alice) = [Close_event] \<and>
   requestHandlers (run [ping, Close, Close] alice) = [(JNum 0, 0)] \<and>
   emitted (run [ping, Close, Transport_close] alice) = [Close_event] \<and>
   requestHandlers (run [ping, Close, Transport_close] alice) = [(JNum 0, 0)] \<and>
   emitted (run [ping, Transport_close, Close] alice) = [Close_event] \<and>
   requestHandlers (run [ping, Transport_close, Close] alice) = [(JNum 0, 0)] \<and>
   promise_state (sent (run [ping, Transport_close, Close] alice) ! 0) = None \<and>
   timer (sent (run [ping, Transport_close, Close] alice) ! 0) = Armed"
proof -
  have "count_list (emitted (run es (new_Peer p n))) Close_event =
     (if closed (run es (new_Peer p n)) then 1 else 0)"
    using one_close_event [of es "new_Peer p n"] by (simp add: new_Peer_def)
  moreover have "requestHandlers (close s) = requestHandlers s"
    by (simp add: close_def Let_def)
  moreover have "requestHandlers (on_transport_close s) = requestHandlers s"
    by (simp add: on_transport_close_def)
  moreover have c: "closed (close s)" "closed (on_transport_close s)"
    by (simp_all add: close_def Let_def on_transport_close_def)
  moreover have "close (close s) = logger Debug ''close()'' (close s)"
    "close (on_transport_close s) = logger Debug ''close()'' (on_transport_close s)"
    by (rule close_closed [OF c(1)], rule close_closed [OF c(2)])
  moreover have "on_transport_close (close s) = close s"
    "on_transport_close (on_transport_close s) = on_transport_close s"
    using c by (simp_all add: on_transport_close_def)
  moreover have "emitted (run [ping, Close, Close] alice) = [Close_event] \<and>
   requestHandlers (run [ping, Close, Close] alice) = [(JNum 0, 0)] \<and>
   emitted (run [ping, Close, Transport_close] alice) = [Close_event] \<and>
   requestHandlers (run [ping, Close, Transport_close] alice) = [(JNum 0, 0)] \<and>
   emitted (run [ping, Transport_close, Close] alice) = [Close_event] \<and>
   requestHandlers (run [ping, Transport_close, Close] alice) = [(JNum 0, 0)] \<and>
   promise_state (sent (run [ping, Transport_close, Close] alice) ! 0) = None \<and>
   timer (sent (run [ping, Transport_close, Close] alice) ! 0) = Armed"
    by (simp add: peer_eval example_defs)
  ultimately show ?thesis by blast
qed

section \<open>Responses and timeouts\<close>


text \<open>
  What a matching response does, in any state a run reaches. The handler of the entry is
  called with what the frame holds: \<^verbatim>\<open>resolve\<close> with \<open>data\<close> when \<open>ok\<close> is truthy,
  \<^verbatim>\<open>reject\<close> with \<^verbatim>\<open>new Error(errorReason)\<close> and its code set to \<open>errorCode\<close> when it
  is not; the entry is removed and the timer cleared. A future that was pending is then
  fulfilled with the data, or rejected with that error. The only entries whose future is
  not pending are those \<^verbatim>\<open>close()\<close> has rejected with "peer closed" and left in the
  table.
\<close>

lemma matching_response_calls_the_handler:
  assumes "s = run es (new_Peer p n)" and "truthy (response r)"
    and "map_of (requestHandlers s) (msg_id r) = Some h"
  shows "(let s' = on_transport_message r s;
           c = (if truthy (ok r) then (By_resolve, Fulfilled (data r))
                else (By_reject, Rejected (RemoteError (errorReason r) (errorCode r))))
       in calls (sent s' ! h) = calls (sent s ! h) @ [c] \<and>
          timer (sent s' ! h) = Cleared \<and>
          map_of (requestHandlers s') (msg_id r) = None \<and>
          (promise_state (sent s ! h) = None \<longrightarrow> promise_state (sent s' ! h) = Some (snd c)) \<and>
          (promise_state (sent s ! h) \<noteq> None \<longrightarrow>
             closed s \<and> promise_state (sent s ! h) = Some (Rejected PeerClosed)))"
proof -
  have inv: "peer_inv s" by (simp add: assms(1) inv_reachable)
  note d = table_okD [OF inv assms(3)]
  note m = handleResponse_matched [OF inv assms(3)]
  have s': "on_transport_message r s = handleResponse r s"
    using assms(2) by (simp add: on_transport_message_def)
  have tm: "timer (sent s ! h) = Armed \<or> timer (sent s ! h) = Cleared"
    using slot_okD [OF inv d(1)] d(3) by (auto simp: slot_ok_def)
  have st: "promise_state (sent s ! h) \<noteq> None \<longrightarrow>
      closed s \<and> promise_state (sent s ! h) = Some (Rejected PeerClosed)"
    using pending_iff_armed(4) [OF inv d(1)] d(3)
    by (auto simp: promise_state_def close_call_def)
  let ?c = "if truthy (ok r) then (By_resolve, Fulfilled (data r))
            else (By_reject, Rejected (RemoteError (errorReason r) (errorCode r)))"
  have nth: "sent (handleResponse r s) ! h = called ?c (cleared (sent s ! h))"
    using d(1) by (simp add: m(1))
  have c: "calls (sent (handleResponse r s) ! h) = calls (sent s ! h) @ [?c]"
    by (simp add: nth)
  have "timer (sent (handleResponse r s) ! h) = Cleared"
    using tm by (auto simp: nth)
  moreover have "map_of (requestHandlers (handleResponse r s)) (msg_id r) = None"
    by (simp add: m(2) AList.delete_conv')
  moreover have "promise_state (sent s ! h) = None \<longrightarrow>
      promise_state (sent (handleResponse r s) ! h) = Some (snd ?c)"
    by (simp add: promise_state_append [OF c] promise_state_None)
  ultimately show ?thesis
    unfolding Let_def s' using c st by blast
qed

text \<open>
  C7. A request whose timer is armed, in any state a run reaches: no response has matched
  it and \<^verbatim>\<open>close()\<close> has not rejected it. The timer was set for \<open>REQUEST_TIMEOUT\<close>,
  ten thousand milliseconds. When it fires, the future, pending until then, is rejected
  with "request timeout" and the entry is removed. After any further events the promise
  has received that one call and no other, and a response with the id of the request is
  unmatched: the listener only logs it.
\<close>

theorem timeout_rejects_and_late_response_is_unmatched:
  assumes "s = run es (new_Peer p n)" and "h < length (sent s)"
    and "timer (sent s ! h) = Armed"
  shows "timeout_ms (sent s ! h) = 10000 \<and>
     promise_state (sent s ! h) = None \<and>
     promise_state (sent (on_timeout h s) ! h) = Some (Rejected RequestTimeout) \<and>
     map_of (requestHandlers (on_timeout h s)) (request_id h s) = None \<and>
     (\<forall>es'.
        calls (sent (run es' (on_timeout h s)) ! h) = [(By_timer, Rejected RequestTimeout)] \<and>
        (\<forall>r. truthy (response r) \<and> msg_id r = request_id h s \<longrightarrow>
           on_transport_message r (run es' (on_timeout h s)) =
           logger Error_level ''received response does not match any sent request''
             (run es' (on_timeout h s))))"
proof -
  let ?t = "on_timeout h s"
  have inv: "peer_inv s" by (simp add: assms(1) inv_reachable)
  note h = assms(2) and a = assms(3)
  have ms: "timeout_ms (sent s ! h) = 10000"
    using inv h by (simp add: peer_inv_def REQUEST_TIMEOUT_def)
  have c0: "calls (sent s ! h) = []" by (rule armed_present(2) [OF inv h a])
  then have pend: "promise_state (sent s ! h) = None" by (simp add: promise_state_None)
  note ot = on_timeout_armed [OF inv h a]
  have invt: "peer_inv ?t" by (rule inv_on_timeout [OF inv])
  have ht: "h < length (sent ?t)" using h by (simp add: ot(1))
  have ct: "calls (sent ?t ! h) = [(By_timer, Rejected RequestTimeout)]"
    using h c0 by (simp add: ot(1))
  then have pt: "promise_state (sent ?t ! h) = Some (Rejected RequestTimeout)"
    by (simp add: promise_state_def)
  have gone: "map_of (requestHandlers ?t) (request_id h s) = None"
    by (simp add: ot(2) AList.delete_conv')
  have ridt: "request_id h ?t = request_id h s"
    by (rule grows_request_id [OF grows_on_timeout h])
  have np: "\<not> present h ?t" by (simp add: present_def ridt gone)
  have later: "calls (sent (run es' ?t) ! h) = [(By_timer, Rejected RequestTimeout)] \<and>
        (\<forall>r. truthy (response r) \<and> msg_id r = request_id h s \<longrightarrow>
           on_transport_message r (run es' ?t) =
           logger Error_level ''received response does not match any sent request'' (run es' ?t))"
    for es'
  proof -
    let ?u = "run es' ?t"
    note st = removed_stays [OF invt ht np, of es']
    have hu: "h < length (sent ?u)" using grows_run [of ?t es'] ht by (simp add: grows_def)
    have ridu: "request_id h ?u = request_id h s"
      using grows_request_id [OF grows_run ht, of es'] ridt by simp
    have "map_of (requestHandlers ?u) (request_id h ?u) = None"
      using absent_lookup [OF inv_run [OF invt] hu] st by blast
    then have "map_of (requestHandlers ?u) (request_id h s) = None" by (simp add: ridu)
    then have "on_transport_message r ?u =
        logger Error_level ''received response does not match any sent request'' ?u"
      if "truthy (response r) \<and> msg_id r = request_id h s" for r
      using that by (simp add: on_transport_message_def handleResponse_def)
    then show ?thesis using st ct by simp
  qed
  show ?thesis using ms pend pt gone later by blast
qed

theorem timeout_rejects_and_late_response_is_unmatched_witness:
  "timer (sent (run [ping] alice) ! 0) = Armed \<and>
   timeout_ms (sent (run [ping] alice) ! 0) = 10000 \<and>
   promise_state (sent (on_timeout 0 (run [ping] alice)) ! 0) = Some (Rejected RequestTimeout) \<and>
   calls (sent (run [Transport_message (pong 0), Close] (on_timeout 0 (run [ping] alice))) ! 0) =
     [(By_timer, Rejected RequestTimeout)] \<and>
   on_transport_message (pong 0) (run [] (on_timeout 0 (run [ping] alice))) =
     logger Error_level ''received response does not match any sent request''
       (run [] (on_timeout 0 (run [ping] alice)))"
proof -
  let ?es = "[ping]"
  let ?s = "run ?es alice"
  have s: "?s = run ?es (new_Peer (JStr ''alice'') 0)" by (simp add: alice_def)
  have len: "0 < length (sent ?s)" and a: "timer (sent ?s ! 0) = Armed"
    and r: "truthy (response (pong 0)) \<and> msg_id (pong 0) = request_id 0 ?s"
    by (simp_all add: peer_eval example_defs)
  note t = timeout_rejects_and_late_response_is_unmatched [OF s len a]
  from t have 1: "timeout_ms (sent ?s ! 0) = 10000 \<and>
      promise_state (sent (on_timeout 0 ?s) ! 0) = Some (Rejected RequestTimeout)" by blast
  from t have all: "\<forall>es'.
        calls (sent (run es' (on_timeout 0 ?s)) ! 0) = [(By_timer, Rejected RequestTimeout)] \<and>
        (\<forall>r. truthy (response r) \<and> msg_id r = request_id 0 ?s \<longrightarrow>
           on_transport_message r (run es' (on_timeout 0 ?s)) =
           logger Error_level ''received response does not match any sent request''
             (run es' (on_timeout 0 ?s)))" by blast
  from all have 2: "calls (sent (run [Transport_message (pong 0), Close] (on_timeout 0 ?s)) ! 0) =
      [(By_timer, Rejected RequestTimeout)]" by blast
  from all r have 3: "on_transport_message (pong 0) (run [] (on_timeout 0 ?s)) =
     logger Error_level ''received response does not match any sent request''
       (run [] (on_timeout 0 ?s))" by blast
  show ?thesis using a 1 2 3 by blast
qed

section \<open>Inbound messages\<close>

text \<open>
  C9. A ResponseFrame whose id has no entry in the table of pending requests is a no-op:
  the listener of the transport's message event only gives the logger the line
  "received response does not match any sent request". The closed flag, the table, every
  promise and timer, the calls on the transport and the emitted events are those of the
  state before; the listener has no failing branch.
\<close>

theorem unmatched_response_is_dropped:
  assumes "truthy (response m)"
    and "map_of (requestHandlers s) (msg_id m) = None"
  shows "on_transport_message m s =
     s \<lparr> logged := logged s @
            [(Error_level, ''received response does not match any sent request'')] \<rparr>"
  using assms by (simp add: on_transport_message_def handleResponse_def logger_def)

theorem unmatched_response_is_dropped_witness:
  "on_transport_message (successResponseFactory (requestFactory JNull JNull 7) (JStr ''pong''))
     (snd (send (JStr ''ping'') JNull (new_Peer (JStr ''a'') 0))) =
   (snd (send (JStr ''ping'') JNull (new_Peer (JStr ''a'') 0)))
     \<lparr> logged := [(Debug, ''constructor()''),
         (Error_level, ''received response does not match any sent request'')] \<rparr>"
  using unmatched_response_is_dropped
    [of "successResponseFactory (requestFactory JNull JNull 7) (JStr ''pong'')"
        "snd (send (JStr ''ping'') JNull (new_Peer (JStr ''a'') 0))"]
  by (simp add: successResponseFactory_def requestFactory_def empty_message_def send_def
      new_Peer_def Let_def)

text \<open>
  C10. The listener of the transport's message event tests the response field first. A
  message whose response field is truthy is handled as a response, whatever its request
  field holds, and no request event is emitted for it. A request event is emitted, with
  the message, exactly when the response field is falsy and the request field truthy,
  and nothing else changes then. A message with both fields falsy changes nothing.
\<close>

theorem response_check_comes_first:
  "(truthy (response m) \<longrightarrow>
      on_transport_message m s = handleResponse m s \<and>
      emitted (on_transport_message m s) = emitted s) \<and>
   (\<not> truthy (response m) \<and> truthy (request m) \<longrightarrow>
      on_transport_message m s = s \<lparr> emitted := emitted s @ [Request_event m] \<rparr>) \<and>
   (\<not> truthy (response m) \<and> \<not> truthy (request m) \<longrightarrow>
      on_transport_message m s = s) \<and>
   (emitted (on_transport_message m s) \<noteq> emitted s \<longrightarrow>
      \<not> truthy (response m) \<and> truthy (request m))"
  by (simp add: on_transport_message_def handleResponse_emitted handleRequest_def emit_def)

theorem response_check_comes_first_witness:
  "truthy (response (empty_message \<lparr> msg_id := JNum 0, request := JBool True,
       response := JBool True, ok := JBool True, data := JStr ''pong'' \<rparr>)) \<and>
   truthy (request (empty_message \<lparr> msg_id := JNum 0, request := JBool True,
       response := JBool True, ok := JBool True, data := JStr ''pong'' \<rparr>)) \<and>
   on_transport_message (empty_message \<lparr> msg_id := JNum 0, request := JBool True,
       response := JBool True, ok := JBool True, data := JStr ''pong'' \<rparr>)
     (snd (send (JStr ''ping'') JNull (new_Peer (JStr ''a'') 0))) =
   handleResponse (empty_message \<lparr> msg_id := JNum 0, request := JBool True,
       response := JBool True, ok := JBool True, data := JStr ''pong'' \<rparr>)
     (snd (send (JStr ''ping'') JNull (new_Peer (JStr ''a'') 0))) \<and>
   emitted (on_transport_message (empty_message \<lparr> msg_id := JNum 0, request := JBool True,
       response := JBool True, ok := JBool True, data := JStr ''pong'' \<rparr>)
     (snd (send (JStr ''ping'') JNull (new_Peer (JStr ''a'') 0)))) = []"
  using response_check_comes_first
    [of "empty_message \<lparr> msg_id := JNum 0, request := JBool True,
       response := JBool True, ok := JBool True, data := JStr ''pong'' \<rparr>"
        "snd (send (JStr ''ping'') JNull (new_Peer (JStr ''a'') 0))"]
  by (simp add: empty_message_def send_def new_Peer_def Let_def handleResponse_emitted)

end
